theory Spec2Isabelle
  imports Main "HOL-Library.Sublist"
begin

section \<open>The logger of \<^verbatim>\<open>src/log.c\<close>\<close>

text \<open>
  The program is one C file: a process-wide logger \<^verbatim>\<open>L\<close> (a lock hook, a threshold and a
  quiet flag for the standard stream, and a fixed array of callbacks), two built-in
  formatters and the entry point \<^verbatim>\<open>log_log\<close>. The embedding passes the state explicitly.
  Everything the program does to the outside (text written to a stream, a flush, a call
  through a function pointer supplied by the caller) is appended to a trace, in the
  order in which the C statements run. A process that dies (a formatter of the default
  build uses a number as an address) is marked dead and does nothing more.
\<close>

subsection \<open>Types\<close>

text \<open>
  Modelled from the spec: the header \<^verbatim>\<open>log.h\<close> with the enumeration \<^verbatim>\<open>log_LogLevel\<close> is not
  among the sources. The spec numbers the levels FATAL=0, ERROR=1, WARN=2, INFO=3, DEBUG=4,
  TRACE=5; the table \<^verbatim>\<open>level_strings\<close> of the source, which is indexed by the level, lists
  the names in the same order. C compares enumeration values as integers, which is what
  \<open>level_value\<close> gives.
\<close>

datatype log_LogLevel = LOG_FATAL | LOG_ERROR | LOG_WARN | LOG_INFO | LOG_DEBUG | LOG_TRACE

fun level_value :: "log_LogLevel \<Rightarrow> nat" where
  "level_value LOG_FATAL = 0"
| "level_value LOG_ERROR = 1"
| "level_value LOG_WARN = 2"
| "level_value LOG_INFO = 3"
| "level_value LOG_DEBUG = 4"
| "level_value LOG_TRACE = 5"

text \<open>A \<^verbatim>\<open>void *\<close> is an address; \<open>0\<close> is the null pointer.\<close>

type_synonym ptr = nat

text \<open>The variadic arguments of a call, as \<^verbatim>\<open>va_start\<close> hands them to the formatter.\<close>

datatype arg = Arg_int int | Arg_str string

text \<open>
  A formatting function stored in the registry: the built-in \<^verbatim>\<open>file_callback\<close>, or a function
  of the caller's, known by its address only. A null function pointer is \<open>None\<close>.
  (\<^verbatim>\<open>stdout_callback\<close> is static and is never stored.)
\<close>

datatype log_LogFn = File_callback | User_fn nat

text \<open>
  Modelled from the spec: the structure \<^verbatim>\<open>log_Event\<close> is declared in \<^verbatim>\<open>log.h\<close>; its fields are
  the ones the source reads and writes (\<open>ev_file\<close> is the field \<^verbatim>\<open>file\<close>).
\<close>

record log_Event =
  fmt :: string
  ev_file :: string
  line :: int
  level :: log_LogLevel
  time :: int
  stream :: ptr
  ap :: "arg list"

record Callback =
  cb_fn :: "log_LogFn option"
  cb_stream :: ptr
  cb_level :: log_LogLevel

text \<open>The anonymous structure of the variable \<^verbatim>\<open>L\<close>. A lock function is known by its address.\<close>

record logger =
  lock_ptr :: ptr
  lock_fn :: "nat option"
  std_level :: log_LogLevel
  std_quiet :: bool
  callbacks :: "Callback list"

text \<open>What a run does to the outside, one entry per C call.\<close>

datatype action =
    Lock_call nat bool ptr
  | Fprintf ptr string
  | Fflush ptr
  | Fn_call nat log_Event

text \<open>
  The state of the process: the logger, the trace so far, and the clock. The \<open>n\<close>-th call
  of \<^verbatim>\<open>time(NULL)\<close> returns \<open>clock n\<close>; \<open>ticks\<close> counts the calls made. \<open>dead\<close> is set when
  the process has died of a memory fault: nothing runs after that, so the trace of a dead
  process is what it did until then.
\<close>

record state =
  L :: logger
  trace :: "action list"
  clock :: "nat \<Rightarrow> int"
  ticks :: nat
  dead :: bool

text \<open>
  The build: the macros of the source that the compiler may override, and the function of
  the C library whose result the formatters print (the expansion of a format string by
  \<^verbatim>\<open>vfprintf\<close>).
\<close>

record build =
  LOGC__DEFAULT_STDOUT :: ptr
  LOGC__TIME_FORMAT :: nat
  LOGC__STDOUT_COLOR :: bool
  LOGC__STDOUT_NO_FILEINFO :: bool
  vsprintf :: "string \<Rightarrow> arg list \<Rightarrow> string"

text \<open>
  \<^verbatim>\<open>LOGC__MAX_CALLBACKS\<close> is the number of elements of the array \<^verbatim>\<open>L.callbacks\<close>; it is read
  off the array, so that no state has an array of another size than the macro says.
\<close>

definition LOGC__MAX_CALLBACKS :: "state \<Rightarrow> nat" where
  "LOGC__MAX_CALLBACKS w = length (callbacks (L w))"

text \<open>Static storage is zero-initialised: no lock, level 0, not quiet, every slot empty.\<close>

definition empty_slot :: Callback where
  "empty_slot = \<lparr>cb_fn = None, cb_stream = 0, cb_level = LOG_FATAL\<rparr>"

definition L_init :: "nat \<Rightarrow> logger" where
  "L_init n = \<lparr>lock_ptr = 0, lock_fn = None, std_level = LOG_FATAL, std_quiet = False,
     callbacks = replicate n empty_slot\<rparr>"

definition init_state :: "nat \<Rightarrow> (nat \<Rightarrow> int) \<Rightarrow> state" where
  "init_state n c = \<lparr>L = L_init n, trace = [], clock = c, ticks = 0, dead = False\<rparr>"

subsection \<open>Text\<close>

definition level_strings :: "string list" where
  "level_strings = [''FATAL'', ''ERROR'', ''WARN'', ''INFO'', ''DEBUG'', ''TRACE'']"

definition ESC :: string where
  "ESC = [CHR 0x1B]"

definition level_colors :: "string list" where
  "level_colors = [ESC @ ''[35m'', ESC @ ''[31m'', ESC @ ''[33m'', ESC @ ''[32m'',
     ESC @ ''[36m'', ESC @ ''[94m'']"

definition log_level_string :: "log_LogLevel \<Rightarrow> string" where
  "log_level_string lv = level_strings ! level_value lv"

text \<open>The conversion \<^verbatim>\<open>%-5s\<close>: left-justified, filled with spaces on the right.\<close>

definition left_justify :: "nat \<Rightarrow> string \<Rightarrow> string" where
  "left_justify n s = s @ replicate (n - length s) (CHR '' '')"

text \<open>Decimal digits of a number.\<close>

fun show_nat :: "nat \<Rightarrow> string" where
  "show_nat n =
     (if n < 10 then [''0123456789'' ! n]
      else show_nat (n div 10) @ [''0123456789'' ! (n mod 10)])"

declare show_nat.simps [simp del]

definition show_int :: "int \<Rightarrow> string" where
  "show_int i = (if i < 0 then ''-'' @ show_nat (nat (- i)) else show_nat (nat i))"

text \<open>
  The conversion \<^verbatim>\<open>%d\<close> prints a C \<^verbatim>\<open>int\<close>: of a wider number it prints the low 32 bits, read
  as a signed number. (A line number is an \<^verbatim>\<open>int\<close> already; the time is not.)
\<close>

definition int32 :: "int \<Rightarrow> int" where
  "int32 i = (i + 2147483648) mod 4294967296 - 2147483648"

definition printf_d :: "int \<Rightarrow> string" where
  "printf_d i = show_int (int32 i)"

subsection \<open>Output primitives\<close>

definition fprintf :: "ptr \<Rightarrow> string \<Rightarrow> state \<Rightarrow> state" where
  "fprintf s t w = w\<lparr>trace := trace w @ [Fprintf s t]\<rparr>"

definition vfprintf :: "build \<Rightarrow> ptr \<Rightarrow> string \<Rightarrow> arg list \<Rightarrow> state \<Rightarrow> state" where
  "vfprintf b s f args w = fprintf s (vsprintf b f args) w"

definition fflush :: "ptr \<Rightarrow> state \<Rightarrow> state" where
  "fflush s w = w\<lparr>trace := trace w @ [Fflush s]\<rparr>"

text \<open>The process dies of a memory fault.\<close>

definition segfault :: "state \<Rightarrow> state" where
  "segfault w = w\<lparr>dead := True\<rparr>"

subsection \<open>The formatters\<close>

text \<open>
  With \<^verbatim>\<open>LOGC__TIME_FORMAT == 2\<close>, the default, both formatters start by rendering the time.
  \<^verbatim>\<open>init_event\<close> has stored the number returned by \<^verbatim>\<open>time(NULL)\<close> in \<^verbatim>\<open>ev->time\<close>;
  \<^verbatim>\<open>stdout_callback\<close> passes that field to \<^verbatim>\<open>localtime\<close>, which reads a \<^verbatim>\<open>time_t\<close> at the address
  it is given, and \<^verbatim>\<open>file_callback\<close> passes it to \<^verbatim>\<open>strftime\<close>, which reads a \<^verbatim>\<open>struct tm\<close> there.
  The number is no address of the process, and the process dies at this point, before the
  first \<^verbatim>\<open>fprintf\<close>. With time format 1 the number is printed with \<^verbatim>\<open>%d\<close>; with any other value
  no time is printed.
\<close>

definition stdout_callback :: "build \<Rightarrow> log_Event \<Rightarrow> state \<Rightarrow> state" where
  "stdout_callback b ev w0 =
     (if LOGC__TIME_FORMAT b = 2 then segfault w0
      else
        (let w1 =
               (if LOGC__TIME_FORMAT b = 1
                  then fprintf (stream ev) (printf_d (time ev) @ '' '') w0
                else w0);
             w2 =
               (if LOGC__STDOUT_COLOR b
                  then fprintf (stream ev)
                         (level_colors ! level_value (level ev)
                            @ left_justify 5 (level_strings ! level_value (level ev))
                            @ ESC @ ''[0m '') w1
                else fprintf (stream ev)
                         (left_justify 5 (level_strings ! level_value (level ev)) @ '' '') w1);
             w3 =
               (if LOGC__STDOUT_NO_FILEINFO b then w2
                else if LOGC__STDOUT_COLOR b
                  then fprintf (stream ev)
                         (ESC @ ''[90m'' @ ev_file ev @ '':'' @ printf_d (line ev) @ '':''
                            @ ESC @ ''[0m '') w2
                else fprintf (stream ev) (ev_file ev @ '':'' @ printf_d (line ev) @ '': '') w2);
             w4 = vfprintf b (stream ev) (fmt ev) (ap ev) w3;
             w5 = fprintf (stream ev) [CHR 0x0A] w4
         in fflush (stream ev) w5))"

definition file_callback :: "build \<Rightarrow> log_Event \<Rightarrow> state \<Rightarrow> state" where
  "file_callback b ev w0 =
     (if LOGC__TIME_FORMAT b = 2 then segfault w0
      else
        (let w1 =
               (if LOGC__TIME_FORMAT b = 1
                  then fprintf (stream ev) (printf_d (time ev) @ '' '') w0
                else w0);
             w2 = fprintf (stream ev)
                    (left_justify 5 (level_strings ! level_value (level ev)) @ '' ''
                       @ ev_file ev @ '':'' @ printf_d (line ev) @ '': '') w1;
             w3 = vfprintf b (stream ev) (fmt ev) (ap ev) w2;
             w4 = fprintf (stream ev) [CHR 0x0A] w3
         in fflush (stream ev) w4))"

text \<open>
  A call through a stored function pointer, \<^verbatim>\<open>cb->fn(&ev)\<close>. The built-in formatter runs;
  a function of the caller's is recorded with the event it is given, and is taken to return.
\<close>

fun call_fn :: "build \<Rightarrow> log_LogFn \<Rightarrow> log_Event \<Rightarrow> state \<Rightarrow> state" where
  "call_fn b File_callback ev w = file_callback b ev w"
| "call_fn b (User_fn k) ev w = w\<lparr>trace := trace w @ [Fn_call k ev]\<rparr>"

subsection \<open>The lock hook\<close>

definition lock :: "state \<Rightarrow> state" where
  "lock w =
     (case lock_fn (L w) of
        None \<Rightarrow> w
      | Some f \<Rightarrow> w\<lparr>trace := trace w @ [Lock_call f True (lock_ptr (L w))]\<rparr>)"

definition unlock :: "state \<Rightarrow> state" where
  "unlock w =
     (case lock_fn (L w) of
        None \<Rightarrow> w
      | Some f \<Rightarrow> w\<lparr>trace := trace w @ [Lock_call f False (lock_ptr (L w))]\<rparr>)"

subsection \<open>Configuration\<close>

definition log_set_lock :: "nat option \<Rightarrow> ptr \<Rightarrow> state \<Rightarrow> state" where
  "log_set_lock f p w = w\<lparr>L := (L w)\<lparr>lock_fn := f, lock_ptr := p\<rparr>\<rparr>"

definition log_set_level :: "log_LogLevel \<Rightarrow> state \<Rightarrow> state" where
  "log_set_level lv w = w\<lparr>L := (L w)\<lparr>std_level := lv\<rparr>\<rparr>"

definition log_set_quiet :: "bool \<Rightarrow> state \<Rightarrow> state" where
  "log_set_quiet enable w = w\<lparr>L := (L w)\<lparr>std_quiet := enable\<rparr>\<rparr>"

text \<open>
  The loop of \<^verbatim>\<open>log_add_callback\<close>, from slot \<open>i\<close> on. The result is the value returned
  (\<open>0\<close>, or \<open>-1\<close> when no slot is empty) and the state.
\<close>

function add_callback_from ::
  "nat \<Rightarrow> log_LogFn option \<Rightarrow> ptr \<Rightarrow> log_LogLevel \<Rightarrow> state \<Rightarrow> int \<times> state" where
  "add_callback_from i f s lv w =
     (if i < LOGC__MAX_CALLBACKS w then
        (if cb_fn (callbacks (L w) ! i) = None
           then (0, w\<lparr>L := (L w)\<lparr>callbacks :=
                   (callbacks (L w))[i := \<lparr>cb_fn = f, cb_stream = s, cb_level = lv\<rparr>]\<rparr>\<rparr>)
         else add_callback_from (i + 1) f s lv w)
      else (- 1, w))"
  by pat_completeness auto
termination
  by (relation "measure (\<lambda>(i, f, s, lv, w). LOGC__MAX_CALLBACKS w - i)") auto

declare add_callback_from.simps [simp del]

definition log_add_callback ::
  "log_LogFn option \<Rightarrow> ptr \<Rightarrow> log_LogLevel \<Rightarrow> state \<Rightarrow> int \<times> state" where
  "log_add_callback f s lv w = add_callback_from 0 f s lv w"

definition log_add_fp :: "ptr \<Rightarrow> log_LogLevel \<Rightarrow> state \<Rightarrow> int \<times> state" where
  "log_add_fp fp lv w = log_add_callback (Some File_callback) fp lv w"

subsection \<open>Logging\<close>

text \<open>\<^verbatim>\<open>init_event\<close> reads the clock and rebinds the time and the stream of the event.\<close>

definition init_event :: "log_Event \<Rightarrow> ptr \<Rightarrow> state \<Rightarrow> log_Event \<times> state" where
  "init_event ev s w = (ev\<lparr>time := clock w (ticks w), stream := s\<rparr>, w\<lparr>ticks := ticks w + 1\<rparr>)"

definition va_start :: "log_Event \<Rightarrow> arg list \<Rightarrow> log_Event" where
  "va_start ev args = ev\<lparr>ap := args\<rparr>"

text \<open>
  The loop over the registry in \<^verbatim>\<open>log_log\<close>, from slot \<open>i\<close> on. It carries the event, which
  \<^verbatim>\<open>init_event\<close> and \<^verbatim>\<open>va_start\<close> overwrite before each call, and reads the registry from the
  current state at every step, as the C loop does. When a call has killed the process the
  loop goes no further.
\<close>

function callbacks_from ::
  "build \<Rightarrow> log_LogLevel \<Rightarrow> arg list \<Rightarrow> nat \<Rightarrow> log_Event \<Rightarrow> state \<Rightarrow> log_Event \<times> state" where
  "callbacks_from b lv args i ev w =
     (if dead w then (ev, w)
      else if i < LOGC__MAX_CALLBACKS w then
        (case cb_fn (callbacks (L w) ! i) of
           None \<Rightarrow> (ev, w)
         | Some f \<Rightarrow>
             (if level_value lv \<ge> level_value (cb_level (callbacks (L w) ! i)) then
                (case init_event ev (cb_stream (callbacks (L w) ! i)) w of
                   (ev1, w1) \<Rightarrow>
                     callbacks_from b lv args (i + 1) (va_start ev1 args)
                       (call_fn b f (va_start ev1 args) w1))
              else callbacks_from b lv args (i + 1) ev w))
      else (ev, w))"
  by pat_completeness auto
termination
  apply (relation "measure (\<lambda>(b, lv, args, i, ev, w). LOGC__MAX_CALLBACKS w - i)")
    apply simp
   apply (auto simp: init_event_def LOGC__MAX_CALLBACKS_def)
  subgoal for b lv args i ev w f
    by (cases f)
      (simp_all add: file_callback_def fprintf_def vfprintf_def fflush_def segfault_def
        Let_def)
  done

declare callbacks_from.simps [simp del]

text \<open>
  \<^verbatim>\<open>log_log\<close>. The event starts with the four fields the initialiser names and zero in the
  others. The standard stream is written when \<^verbatim>\<open>!L.std_quiet && level >= L.std_level\<close>. The
  lock is released when the process has come through the formatters alive.
\<close>

definition log_log ::
  "build \<Rightarrow> log_LogLevel \<Rightarrow> string \<Rightarrow> int \<Rightarrow> string \<Rightarrow> arg list \<Rightarrow> state \<Rightarrow> state" where
  "log_log b lv f ln fm args w0 =
     (let ev = \<lparr>fmt = fm, ev_file = f, line = ln, level = lv, time = 0, stream = 0, ap = []\<rparr>;
          w1 = lock w0;
          r1 =
            (if \<not> std_quiet (L w1) \<and> level_value lv \<ge> level_value (std_level (L w1)) then
               (case init_event ev (LOGC__DEFAULT_STDOUT b) w1 of
                  (ev1, w2) \<Rightarrow> (va_start ev1 args, stdout_callback b (va_start ev1 args) w2))
             else (ev, w1));
          r2 = callbacks_from b lv args 0 (fst r1) (snd r1)
      in if dead (snd r2) then snd r2 else unlock (snd r2))"

subsection \<open>Runs of the public operations\<close>

datatype operation =
    SetLevel log_LogLevel
  | SetQuiet bool
  | SetLock "nat option" ptr
  | AddSink "log_LogFn option" ptr log_LogLevel
  | AddFileSink ptr log_LogLevel
  | Log log_LogLevel string int string "arg list"

fun perform :: "build \<Rightarrow> operation \<Rightarrow> state \<Rightarrow> state" where
  "perform b (SetLevel lv) w = log_set_level lv w"
| "perform b (SetQuiet q) w = log_set_quiet q w"
| "perform b (SetLock f p) w = log_set_lock f p w"
| "perform b (AddSink f s lv) w = snd (log_add_callback f s lv w)"
| "perform b (AddFileSink s lv) w = snd (log_add_fp s lv w)"
| "perform b (Log lv f ln fm args) w = log_log b lv f ln fm args w"

text \<open>A dead process performs no operation.\<close>

definition apply_op :: "build \<Rightarrow> operation \<Rightarrow> state \<Rightarrow> state" where
  "apply_op b x w = (if dead w then w else perform b x w)"

fun run :: "build \<Rightarrow> operation list \<Rightarrow> state \<Rightarrow> state" where
  "run b [] w = w"
| "run b (x # xs) w = run b xs (apply_op b x w)"

subsection \<open>Reading a trace\<close>

text \<open>The text a trace writes to one stream, and the actions a call adds to the trace.\<close>

fun text_to :: "ptr \<Rightarrow> action \<Rightarrow> string" where
  "text_to s (Fprintf s' t) = (if s' = s then t else [])"
| "text_to s (Lock_call f a p) = []"
| "text_to s (Fflush s') = []"
| "text_to s (Fn_call k ev) = []"

definition written :: "ptr \<Rightarrow> action list \<Rightarrow> string" where
  "written s tr = concat (map (text_to s) tr)"

definition added :: "state \<Rightarrow> state \<Rightarrow> action list" where
  "added w w' = drop (length (trace w)) (trace w')"

section \<open>The actions of a call\<close>

text \<open>
  Every function of the logger only appends to the trace, advances the clock, or kills the
  process. The definitions of this section list what is appended and say when the process
  dies; the lemmas of the next section prove that the functions above do exactly that.
\<close>

definition emit :: "action list \<Rightarrow> state \<Rightarrow> state" where
  "emit acts w = w\<lparr>trace := trace w @ acts\<rparr>"

text \<open>What a formatter writes when it does not die, that is, when the time format is not 2.\<close>

definition time_actions :: "build \<Rightarrow> log_Event \<Rightarrow> action list" where
  "time_actions b ev =
     (if LOGC__TIME_FORMAT b = 1 then [Fprintf (stream ev) (printf_d (time ev) @ '' '')]
      else [])"

definition stdout_actions :: "build \<Rightarrow> log_Event \<Rightarrow> action list" where
  "stdout_actions b ev =
     time_actions b ev
     @ [Fprintf (stream ev)
          (if LOGC__STDOUT_COLOR b
             then level_colors ! level_value (level ev)
                    @ left_justify 5 (log_level_string (level ev)) @ ESC @ ''[0m ''
           else left_justify 5 (log_level_string (level ev)) @ '' '')]
     @ (if LOGC__STDOUT_NO_FILEINFO b then []
        else [Fprintf (stream ev)
                (if LOGC__STDOUT_COLOR b
                   then ESC @ ''[90m'' @ ev_file ev @ '':'' @ printf_d (line ev) @ '':''
                          @ ESC @ ''[0m ''
                 else ev_file ev @ '':'' @ printf_d (line ev) @ '': '')])
     @ [Fprintf (stream ev) (vsprintf b (fmt ev) (ap ev)),
        Fprintf (stream ev) [CHR 0x0A],
        Fflush (stream ev)]"

definition file_actions :: "build \<Rightarrow> log_Event \<Rightarrow> action list" where
  "file_actions b ev =
     time_actions b ev
     @ [Fprintf (stream ev)
          (left_justify 5 (log_level_string (level ev)) @ '' ''
             @ ev_file ev @ '':'' @ printf_d (line ev) @ '': ''),
        Fprintf (stream ev) (vsprintf b (fmt ev) (ap ev)),
        Fprintf (stream ev) [CHR 0x0A],
        Fflush (stream ev)]"

fun fn_actions :: "build \<Rightarrow> log_LogFn \<Rightarrow> log_Event \<Rightarrow> action list" where
  "fn_actions b File_callback ev = file_actions b ev"
| "fn_actions b (User_fn k) ev = [Fn_call k ev]"

text \<open>The calls that kill the process: the built-in file formatter with time format 2.\<close>

fun fn_dies :: "build \<Rightarrow> log_LogFn \<Rightarrow> bool" where
  "fn_dies b File_callback = (LOGC__TIME_FORMAT b = 2)"
| "fn_dies b (User_fn k) = False"

definition sink_dies :: "build \<Rightarrow> Callback \<Rightarrow> bool" where
  "sink_dies b cb = (case cb_fn cb of None \<Rightarrow> False | Some g \<Rightarrow> fn_dies b g)"

text \<open>
  The sinks a call at level \<open>lv\<close> reaches if it lives: the slots before the first empty one
  whose threshold passes the test \<^verbatim>\<open>level >= cb->level\<close>, in slot order. Those it delivers to
  are the ones before the first whose call kills the process.
\<close>

definition qualifying :: "log_LogLevel \<Rightarrow> Callback list \<Rightarrow> Callback list" where
  "qualifying lv cbs =
     filter (\<lambda>cb. level_value lv \<ge> level_value (cb_level cb))
       (takeWhile (\<lambda>cb. cb_fn cb \<noteq> None) cbs)"

definition delivered :: "build \<Rightarrow> Callback list \<Rightarrow> Callback list" where
  "delivered b cbs = takeWhile (\<lambda>cb. \<not> sink_dies b cb) cbs"

text \<open>
  Delivery to a list of sinks, the first at clock reading \<open>k\<close>: each sink's function is
  given an event with the message of the call, the time just read and the sink's stream.
\<close>

fun sink_actions ::
  "build \<Rightarrow> log_LogLevel \<Rightarrow> string \<Rightarrow> int \<Rightarrow> string \<Rightarrow> arg list \<Rightarrow> (nat \<Rightarrow> int) \<Rightarrow> nat
     \<Rightarrow> Callback list \<Rightarrow> action list" where
  "sink_actions b lv f ln fm args c k [] = []"
| "sink_actions b lv f ln fm args c k (cb # cbs) =
     (case cb_fn cb of
        None \<Rightarrow> []
      | Some g \<Rightarrow>
          fn_actions b g
            \<lparr>fmt = fm, ev_file = f, line = ln, level = lv, time = c k, stream = cb_stream cb,
               ap = args\<rparr>)
     @ sink_actions b lv f ln fm args c (k + 1) cbs"

definition hook_actions :: "bool \<Rightarrow> logger \<Rightarrow> action list" where
  "hook_actions a l =
     (case lock_fn l of None \<Rightarrow> [] | Some h \<Rightarrow> [Lock_call h a (lock_ptr l)])"

definition std_passes :: "log_LogLevel \<Rightarrow> logger \<Rightarrow> bool" where
  "std_passes lv l = (\<not> std_quiet l \<and> level_value lv \<ge> level_value (std_level l))"

definition std_dies :: "build \<Rightarrow> log_LogLevel \<Rightarrow> state \<Rightarrow> bool" where
  "std_dies b lv w = (std_passes lv (L w) \<and> LOGC__TIME_FORMAT b = 2)"

definition std_actions ::
  "build \<Rightarrow> log_LogLevel \<Rightarrow> string \<Rightarrow> int \<Rightarrow> string \<Rightarrow> arg list \<Rightarrow> state \<Rightarrow> action list" where
  "std_actions b lv f ln fm args w =
     (if std_passes lv (L w)
        then stdout_actions b
               \<lparr>fmt = fm, ev_file = f, line = ln, level = lv, time = clock w (ticks w),
                  stream = LOGC__DEFAULT_STDOUT b, ap = args\<rparr>
      else [])"

definition std_ticks :: "log_LogLevel \<Rightarrow> state \<Rightarrow> nat" where
  "std_ticks lv w = (if std_passes lv (L w) then 1 else 0)"

text \<open>What a call of \<^verbatim>\<open>log_log\<close> adds between the two calls of the hook, when it returns.\<close>

definition log_body ::
  "build \<Rightarrow> log_LogLevel \<Rightarrow> string \<Rightarrow> int \<Rightarrow> string \<Rightarrow> arg list \<Rightarrow> state \<Rightarrow> action list" where
  "log_body b lv f ln fm args w =
     std_actions b lv f ln fm args w
     @ sink_actions b lv f ln fm args (clock w) (ticks w + std_ticks lv w)
         (qualifying lv (callbacks (L w)))"

text \<open>
  What a call of \<^verbatim>\<open>log_log\<close> adds in any build, whether it dies, and how often it reads the
  clock.
\<close>

definition log_dies :: "build \<Rightarrow> log_LogLevel \<Rightarrow> state \<Rightarrow> bool" where
  "log_dies b lv w =
     (std_dies b lv w
      \<or> delivered b (qualifying lv (callbacks (L w))) \<noteq> qualifying lv (callbacks (L w)))"

definition log_actions ::
  "build \<Rightarrow> log_LogLevel \<Rightarrow> string \<Rightarrow> int \<Rightarrow> string \<Rightarrow> arg list \<Rightarrow> state \<Rightarrow> action list" where
  "log_actions b lv f ln fm args w =
     hook_actions True (L w)
     @ (if std_dies b lv w then []
        else std_actions b lv f ln fm args w
          @ sink_actions b lv f ln fm args (clock w) (ticks w + std_ticks lv w)
              (delivered b (qualifying lv (callbacks (L w))))
          @ (if log_dies b lv w then [] else hook_actions False (L w)))"

definition log_ticks :: "build \<Rightarrow> log_LogLevel \<Rightarrow> state \<Rightarrow> nat" where
  "log_ticks b lv w =
     std_ticks lv w
     + (if std_dies b lv w then 0
        else length (delivered b (qualifying lv (callbacks (L w))))
          + (if log_dies b lv w then 1 else 0))"

section \<open>The registry\<close>

text \<open>
  The populated slots form a prefix of the registry: after the first empty slot every slot
  is empty.
\<close>

definition prefix_inv :: "Callback list \<Rightarrow> bool" where
  "prefix_inv cbs =
     list_all (\<lambda>cb. cb_fn cb = None) (dropWhile (\<lambda>cb. cb_fn cb \<noteq> None) cbs)"

text \<open>A sink to register: the arguments of one call of \<^verbatim>\<open>log_add_callback\<close>.\<close>

type_synonym sink = "log_LogFn option \<times> ptr \<times> log_LogLevel"

definition slot_of :: "sink \<Rightarrow> Callback" where
  "slot_of x = \<lparr>cb_fn = fst x, cb_stream = fst (snd x), cb_level = snd (snd x)\<rparr>"

text \<open>Registering a list of sinks one after the other, keeping the value each call returns.\<close>

fun add_all :: "sink list \<Rightarrow> state \<Rightarrow> int list \<times> state" where
  "add_all [] w = ([], w)"
| "add_all (x # xs) w =
     (let r = log_add_callback (fst x) (fst (snd x)) (snd (snd x)) w;
          rs = add_all xs (snd r)
      in (fst r # fst rs, snd rs))"

text \<open>The state after registering a list of sinks in a registry with as many slots.\<close>

definition registered :: "sink list \<Rightarrow> (nat \<Rightarrow> int) \<Rightarrow> state" where
  "registered sinks c = snd (add_all sinks (init_state (length sinks) c))"

section \<open>The text of a line\<close>

text \<open>The timestamp prefix of a line in a build whose time format is not 2.\<close>

definition time_text :: "build \<Rightarrow> log_Event \<Rightarrow> string" where
  "time_text b ev = (if LOGC__TIME_FORMAT b = 1 then printf_d (time ev) @ '' '' else [])"

text \<open>
  Modelled from the spec: "left-padded to 5 characters", read as padding on the left. It is
  compared below with what the conversion \<^verbatim>\<open>%-5s\<close> of the source prints.
\<close>

definition left_pad :: "nat \<Rightarrow> string \<Rightarrow> string" where
  "left_pad n s = replicate (n - length s) (CHR '' '') @ s"

section \<open>Concrete builds and states\<close>

text \<open>
  The default build (time format 2, no colour, file and line printed), with the standard
  stream at address 2, and the same build without timestamps (time format 0). The C library
  is fixed to one outcome: a format string without conversions expands to itself. The clock
  \<open>noon\<close> stands still.
\<close>

definition default_build :: build where
  "default_build =
     \<lparr>LOGC__DEFAULT_STDOUT = 2, LOGC__TIME_FORMAT = 2, LOGC__STDOUT_COLOR = False,
        LOGC__STDOUT_NO_FILEINFO = False, vsprintf = (\<lambda>f args. f)\<rparr>"

definition plain_build :: build where
  "plain_build = default_build\<lparr>LOGC__TIME_FORMAT := 0\<rparr>"

definition noon :: "nat \<Rightarrow> int" where
  "noon n = 1767268800"

text \<open>An event at level WARN bound to stream 7.\<close>

definition warn_event :: log_Event where
  "warn_event =
     \<lparr>fmt = ''started'', ev_file = ''main.c'', line = 3, level = LOG_WARN, time = 1767268800,
        stream = 7, ap = []\<rparr>"

text \<open>A run of the public operations.\<close>

definition example_ops :: "operation list" where
  "example_ops =
     [AddFileSink 7 LOG_ERROR, SetQuiet True, AddSink (Some (User_fn 1)) 8 LOG_INFO,
      Log LOG_WARN ''main.c'' 3 ''started'' [], SetLevel LOG_DEBUG]"

text \<open>
  A quiet logger with one sink of the caller's at threshold ERROR; and the set-up of the
  spec's end-to-end example: threshold WARN for the standard stream, not quiet, one file sink
  at threshold ERROR on stream 7.
\<close>

definition one_sink_at_error :: state where
  "one_sink_at_error =
     log_set_quiet True (snd (log_add_callback (Some (User_fn 1)) 8 LOG_ERROR (init_state 10 noon)))"

definition end_to_end_state :: state where
  "end_to_end_state =
     log_set_quiet False (log_set_level LOG_WARN (snd (log_add_fp 7 LOG_ERROR (init_state 10 noon))))"

text \<open>Two sinks of the caller's at threshold ERROR, filling a registry of two slots.\<close>

definition error_sinks :: "sink list" where
  "error_sinks = [(Some (User_fn 1), 8, LOG_ERROR), (Some (User_fn 2), 9, LOG_ERROR)]"

text \<open>
  One sink of the caller's at threshold FATAL, which an event at FATAL passes; with the quiet
  flag set, with the flag unset, and with a lock function installed.
\<close>

definition fatal_sink :: "sink list" where
  "fatal_sink = [(Some (User_fn 1), 8, LOG_FATAL)]"

definition quiet_state :: state where
  "quiet_state = log_set_quiet True (registered fatal_sink noon)"

definition loud_state :: state where
  "loud_state = log_set_quiet False (registered fatal_sink noon)"

definition locked_state :: state where
  "locked_state = log_set_lock (Some 5) 9 (registered fatal_sink noon)"

text \<open>
  A quiet logger with a file sink on stream 7 and, registered after it, a sink of the
  caller's, both at threshold ERROR.
\<close>

definition file_then_user :: "sink list" where
  "file_then_user = [(Some File_callback, 7, LOG_ERROR), (Some (User_fn 1), 8, LOG_ERROR)]"

definition file_then_user_state :: state where
  "file_then_user_state = log_set_quiet True (registered file_then_user noon)"

section \<open>What the functions do\<close>

lemma emit_emit: "emit ys (emit xs w) = emit (xs @ ys) w"
  by (simp add: emit_def)

lemma emit_Nil: "emit [] w = w"
  by (simp add: emit_def)

lemma fprintf_emit: "fprintf s t w = emit [Fprintf s t] w"
  by (simp add: fprintf_def emit_def)

lemma fflush_emit: "fflush s w = emit [Fflush s] w"
  by (simp add: fflush_def emit_def)

lemma stdout_callback_emit:
  "stdout_callback b ev w =
     (if LOGC__TIME_FORMAT b = 2 then segfault w else emit (stdout_actions b ev) w)"
  by (simp add: stdout_callback_def stdout_actions_def time_actions_def Let_def vfprintf_def
      fprintf_emit fflush_emit emit_emit emit_Nil log_level_string_def)

lemma file_callback_emit:
  "file_callback b ev w =
     (if LOGC__TIME_FORMAT b = 2 then segfault w else emit (file_actions b ev) w)"
  by (simp add: file_callback_def file_actions_def time_actions_def Let_def vfprintf_def
      fprintf_emit fflush_emit emit_emit emit_Nil log_level_string_def)

lemma call_fn_emit:
  "call_fn b g ev w = (if fn_dies b g then segfault w else emit (fn_actions b g ev) w)"
  by (cases g) (simp_all add: file_callback_emit, simp add: emit_def)

lemma lock_emit: "lock w = emit (hook_actions True (L w)) w"
  by (simp add: lock_def hook_actions_def emit_def split: option.splits)

lemma unlock_emit: "unlock w = emit (hook_actions False (L w)) w"
  by (simp add: unlock_def hook_actions_def emit_def split: option.splits)

lemma qualifying_Nil: "qualifying lv [] = []"
  by (simp add: qualifying_def)

lemma qualifying_Cons:
  "qualifying lv (cb # cbs) =
     (if cb_fn cb = None then []
      else if level_value lv \<ge> level_value (cb_level cb) then cb # qualifying lv cbs
      else qualifying lv cbs)"
  by (simp add: qualifying_def)

lemma delivered_Nil: "delivered b [] = []"
  by (simp add: delivered_def)

lemma delivered_Cons:
  "delivered b (cb # cbs) = (if sink_dies b cb then [] else cb # delivered b cbs)"
  by (simp add: delivered_def)

lemma callbacks_from_dead: "dead w \<Longrightarrow> callbacks_from b lv args i ev w = (ev, w)"
  by (simp add: callbacks_from.simps [of b lv args i ev w])

text \<open>
  The loop from slot \<open>i\<close> delivers to the qualifying sinks among the slots from \<open>i\<close> on, as far
  as the process lives.
\<close>

lemma callbacks_from_emit:
  "\<not> dead w \<Longrightarrow>
   snd (callbacks_from b lv args i ev w) =
     (emit (sink_actions b (level ev) (ev_file ev) (line ev) (fmt ev) args (clock w) (ticks w)
              (delivered b (qualifying lv (drop i (callbacks (L w)))))) w)
       \<lparr>ticks := ticks w + length (delivered b (qualifying lv (drop i (callbacks (L w)))))
            + (if delivered b (qualifying lv (drop i (callbacks (L w))))
                   = qualifying lv (drop i (callbacks (L w))) then 0 else 1),
         dead := delivered b (qualifying lv (drop i (callbacks (L w))))
                   \<noteq> qualifying lv (drop i (callbacks (L w)))\<rparr>"
proof (induction b lv args i ev w rule: callbacks_from.induct)
  case (1 b lv args i ev w)
  note alive = \<open>\<not> dead w\<close>
  let ?cbs = "callbacks (L w)"
  show ?case
  proof (cases "i < length ?cbs")
    case False
    then show ?thesis
      using alive
      by (simp add: callbacks_from.simps [of b lv args i ev w] LOGC__MAX_CALLBACKS_def
          qualifying_Nil delivered_Nil emit_def)
  next
    case lt: True
    then have dr: "drop i ?cbs = ?cbs ! i # drop (Suc i) ?cbs"
      by (simp add: Cons_nth_drop_Suc)
    show ?thesis
    proof (cases "cb_fn (?cbs ! i)")
      case None
      with lt dr alive show ?thesis
        by (simp add: callbacks_from.simps [of b lv args i ev w] LOGC__MAX_CALLBACKS_def
            qualifying_Cons delivered_Nil emit_def)
    next
      case (Some g)
      show ?thesis
      proof (cases "level_value lv \<ge> level_value (cb_level (?cbs ! i))")
        case False
        have "snd (callbacks_from b lv args i ev w) = snd (callbacks_from b lv args (i + 1) ev w)"
          using lt Some False alive
          by (simp add: callbacks_from.simps [of b lv args i ev w] LOGC__MAX_CALLBACKS_def)
        also have "\<dots> =
            (emit (sink_actions b (level ev) (ev_file ev) (line ev) (fmt ev) args (clock w)
                     (ticks w) (delivered b (qualifying lv (drop (i + 1) ?cbs)))) w)
              \<lparr>ticks := ticks w + length (delivered b (qualifying lv (drop (i + 1) ?cbs)))
                   + (if delivered b (qualifying lv (drop (i + 1) ?cbs))
                          = qualifying lv (drop (i + 1) ?cbs) then 0 else 1),
                dead := delivered b (qualifying lv (drop (i + 1) ?cbs))
                          \<noteq> qualifying lv (drop (i + 1) ?cbs)\<rparr>"
          using "1.IH"(2) [OF alive _ Some _ alive] lt False by (simp add: LOGC__MAX_CALLBACKS_def)
        finally show ?thesis
          using dr Some False by (simp add: qualifying_Cons)
      next
        case True
        define ev1 where "ev1 = ev\<lparr>time := clock w (ticks w), stream := cb_stream (?cbs ! i)\<rparr>"
        define w1 where "w1 = w\<lparr>ticks := ticks w + 1\<rparr>"
        define w2 where "w2 = call_fn b g (va_start ev1 args) w1"
        have ie: "init_event ev (cb_stream (?cbs ! i)) w = (ev1, w1)"
          by (simp add: init_event_def ev1_def w1_def)
        have ev1: "va_start ev1 args =
            \<lparr>fmt = fmt ev, ev_file = ev_file ev, line = line ev, level = level ev,
               time = clock w (ticks w), stream = cb_stream (?cbs ! i), ap = args\<rparr>"
          by (simp add: ev1_def va_start_def)
        have step: "snd (callbacks_from b lv args i ev w)
                = snd (callbacks_from b lv args (i + 1) (va_start ev1 args) w2)"
          using lt Some True ie alive
          by (simp add: callbacks_from.simps [of b lv args i ev w] LOGC__MAX_CALLBACKS_def w2_def)
        have q: "qualifying lv (drop i ?cbs) = ?cbs ! i # qualifying lv (drop (Suc i) ?cbs)"
          using dr Some True by (simp add: qualifying_Cons)
        show ?thesis
        proof (cases "fn_dies b g")
          case dies: True
          then have w2: "w2 = segfault w1"
            by (simp add: w2_def call_fn_emit)
          then have "dead w2"
            by (simp add: segfault_def)
          then have "snd (callbacks_from b lv args (i + 1) (va_start ev1 args) w2) = w2"
            by (simp add: callbacks_from_dead)
          moreover have "delivered b (?cbs ! i # qualifying lv (drop (Suc i) ?cbs)) = []"
            using dies Some by (simp add: delivered_Cons sink_dies_def)
          ultimately show ?thesis
            using step by (simp add: q w2 w1_def segfault_def emit_def)
        next
          case lives: False
          then have w2: "w2 = emit (fn_actions b g (va_start ev1 args)) w1"
            by (simp add: w2_def call_fn_emit)
          have alive2: "\<not> dead w2"
            using alive by (simp add: w2 emit_def w1_def)
          have d: "delivered b (?cbs ! i # qualifying lv (drop (Suc i) ?cbs)) =
              ?cbs ! i # delivered b (qualifying lv (drop (Suc i) ?cbs))"
            using lives Some by (simp add: delivered_Cons sink_dies_def)
          have "snd (callbacks_from b lv args (i + 1) (va_start ev1 args) w2) =
            (emit (sink_actions b (level ev) (ev_file ev) (line ev) (fmt ev) args (clock w2)
                     (ticks w2) (delivered b (qualifying lv (drop (i + 1) (callbacks (L w2)))))) w2)
              \<lparr>ticks := ticks w2
                   + length (delivered b (qualifying lv (drop (i + 1) (callbacks (L w2)))))
                   + (if delivered b (qualifying lv (drop (i + 1) (callbacks (L w2))))
                          = qualifying lv (drop (i + 1) (callbacks (L w2))) then 0 else 1),
                dead := delivered b (qualifying lv (drop (i + 1) (callbacks (L w2))))
                          \<noteq> qualifying lv (drop (i + 1) (callbacks (L w2)))\<rparr>"
            using "1.IH"(1) [OF alive _ Some True ie [symmetric] alive2 [unfolded w2_def]] lt
            by (simp add: LOGC__MAX_CALLBACKS_def w2_def ev1)
          then show ?thesis
            using step Some
            by (simp add: q d w2 w1_def ev1 emit_def)
        qed
      qed
    qed
  qed
qed

lemma L_callbacks_from: "L (snd (callbacks_from b lv args i ev w)) = L w"
  by (cases "dead w") (simp_all add: callbacks_from_dead callbacks_from_emit emit_def)

text \<open>A whole call: the hook, the standard stream, the sinks, the hook, as far as it lives.\<close>

lemma log_log_emit:
  assumes alive: "\<not> dead w"
  shows "log_log b lv f ln fm args w =
     (emit (log_actions b lv f ln fm args w) w)
       \<lparr>ticks := ticks w + log_ticks b lv w, dead := log_dies b lv w\<rparr>"
proof (cases "std_passes lv (L w)")
  case True
  define ev where "ev = \<lparr>fmt = fm, ev_file = f, line = ln, level = lv,
     time = clock w (ticks w), stream = LOGC__DEFAULT_STDOUT b, ap = args\<rparr>"
  define w2 where "w2 = stdout_callback b ev ((lock w)\<lparr>ticks := ticks w + 1\<rparr>)"
  define r where "r = snd (callbacks_from b lv args 0 ev w2)"
  have unfold: "log_log b lv f ln fm args w = (if dead r then r else unlock r)"
    using True unfolding log_log_def Let_def init_event_def va_start_def r_def w2_def ev_def
    by (simp add: lock_emit emit_def std_passes_def)
  show ?thesis
  proof (cases "LOGC__TIME_FORMAT b = 2")
    case two: True
    then have w2: "w2 = w\<lparr>trace := trace w @ hook_actions True (L w), ticks := ticks w + 1,
        dead := True\<rparr>"
      by (simp add: w2_def stdout_callback_emit segfault_def lock_emit emit_def)
    then have "r = w2"
      by (simp add: r_def callbacks_from_dead)
    then show ?thesis
      using True two
      by (simp add: unfold w2 emit_def log_actions_def log_ticks_def log_dies_def std_dies_def
          std_ticks_def)
  next
    case other: False
    then have w2: "w2 = w\<lparr>trace := trace w @ hook_actions True (L w) @ stdout_actions b ev,
        ticks := ticks w + 1\<rparr>"
      by (simp add: w2_def stdout_callback_emit lock_emit emit_def)
    then have alive2: "\<not> dead w2"
      using alive by simp
    have r: "r = (emit (sink_actions b lv f ln fm args (clock w) (ticks w + 1)
                (delivered b (qualifying lv (callbacks (L w))))) w2)
       \<lparr>ticks := ticks w + 1 + length (delivered b (qualifying lv (callbacks (L w))))
            + (if delivered b (qualifying lv (callbacks (L w)))
                   = qualifying lv (callbacks (L w)) then 0 else 1),
         dead := delivered b (qualifying lv (callbacks (L w)))
                   \<noteq> qualifying lv (callbacks (L w))\<rparr>"
      using callbacks_from_emit [OF alive2, of b lv args 0 ev]
      by (simp add: r_def) (simp add: w2 ev_def)
    have sa: "std_actions b lv f ln fm args w = stdout_actions b ev"
      using True by (simp add: std_actions_def ev_def)
    show ?thesis
    proof (cases "delivered b (qualifying lv (callbacks (L w))) = qualifying lv (callbacks (L w))")
      case all: True
      then show ?thesis
        using True other
        by (simp add: unfold r unlock_emit) (simp add: w2 sa emit_def log_actions_def
            log_ticks_def log_dies_def std_dies_def std_ticks_def)
    next
      case some: False
      then show ?thesis
        using True other
        by (simp add: unfold r) (simp add: w2 sa emit_def log_actions_def
            log_ticks_def log_dies_def std_dies_def std_ticks_def)
    qed
  qed
next
  case False
  define ev where "ev = \<lparr>fmt = fm, ev_file = f, line = ln, level = lv, time = 0,
     stream = 0, ap = []\<rparr>"
  define r where "r = snd (callbacks_from b lv args 0 ev (lock w))"
  have "\<not> (\<not> std_quiet (L (lock w))
      \<and> level_value lv \<ge> level_value (std_level (L (lock w))))"
    using False by (simp add: lock_emit emit_def std_passes_def)
  then have unfold: "log_log b lv f ln fm args w = (if dead r then r else unlock r)"
    unfolding log_log_def Let_def r_def ev_def by (simp only: if_False fst_conv snd_conv)
  have w1: "lock w = w\<lparr>trace := trace w @ hook_actions True (L w)\<rparr>"
    by (simp add: lock_emit emit_def)
  then have alive1: "\<not> dead (lock w)"
    using alive by simp
  have r: "r = (emit (sink_actions b lv f ln fm args (clock w) (ticks w)
                (delivered b (qualifying lv (callbacks (L w))))) (lock w))
       \<lparr>ticks := ticks w + length (delivered b (qualifying lv (callbacks (L w))))
            + (if delivered b (qualifying lv (callbacks (L w)))
                   = qualifying lv (callbacks (L w)) then 0 else 1),
         dead := delivered b (qualifying lv (callbacks (L w)))
                   \<noteq> qualifying lv (callbacks (L w))\<rparr>"
    using callbacks_from_emit [OF alive1, of b lv args 0 ev]
    by (simp add: r_def) (simp add: w1 ev_def)
  have sa: "std_actions b lv f ln fm args w = []"
    using False by (simp add: std_actions_def)
  show ?thesis
  proof (cases "delivered b (qualifying lv (callbacks (L w))) = qualifying lv (callbacks (L w))")
    case all: True
    then show ?thesis
      using False
      by (simp add: unfold r unlock_emit) (simp add: w1 sa emit_def log_actions_def
          log_ticks_def log_dies_def std_dies_def std_ticks_def)
  next
    case some: False
    then show ?thesis
      using False
      by (simp add: unfold r) (simp add: w1 sa emit_def log_actions_def
          log_ticks_def log_dies_def std_dies_def std_ticks_def)
  qed
qed

lemma added_emit: "added w ((emit acts w)\<lparr>ticks := k, dead := d\<rparr>) = acts"
  by (simp add: added_def emit_def)

lemma added_log_log:
  "\<not> dead w \<Longrightarrow> added w (log_log b lv f ln fm args w) = log_actions b lv f ln fm args w"
  by (simp add: log_log_emit added_emit)

lemma dead_log_log:
  "\<not> dead w \<Longrightarrow> dead (log_log b lv f ln fm args w) = log_dies b lv w"
  by (simp add: log_log_emit)

lemma L_log_log: "L (log_log b lv f ln fm args w) = L w"
proof -
  have s: "L (stdout_callback b' ev' w') = L w'" for b' ev' w'
    by (simp add: stdout_callback_emit segfault_def emit_def)
  have u: "L (unlock w') = L w'" "L (lock w') = L w'" for w'
    by (simp_all add: lock_emit unlock_emit emit_def)
  show ?thesis
    unfolding log_log_def Let_def init_event_def
    by (simp add: L_callbacks_from s u)
qed

text \<open>In a build whose time format is not 2 no call dies.\<close>

lemma log_lives:
  assumes "LOGC__TIME_FORMAT b \<noteq> 2"
  shows "\<not> log_dies b lv w"
    and "log_actions b lv f ln fm args w =
      hook_actions True (L w) @ log_body b lv f ln fm args w @ hook_actions False (L w)"
proof -
  have d: "delivered b cbs = cbs" for cbs
  proof -
    have "\<not> sink_dies b cb" for cb
    proof (cases "cb_fn cb")
      case None
      then show ?thesis by (simp add: sink_dies_def)
    next
      case (Some g)
      then show ?thesis using assms by (cases g) (simp_all add: sink_dies_def)
    qed
    then show ?thesis by (simp add: delivered_def)
  qed
  show "\<not> log_dies b lv w"
    using assms by (simp add: log_dies_def std_dies_def d)
  then show "log_actions b lv f ln fm args w =
      hook_actions True (L w) @ log_body b lv f ln fm args w @ hook_actions False (L w)"
    using assms by (simp add: log_actions_def std_dies_def d log_body_def)
qed

text \<open>The text written to a stream.\<close>

lemma written_append: "written s (xs @ ys) = written s xs @ written s ys"
  by (simp add: written_def)

lemma written_Cons: "written s (a # xs) = text_to s a @ written s xs"
  by (simp add: written_def)

lemma written_Nil: "written s [] = []"
  by (simp add: written_def)

lemma added_emit_plain: "added w (emit acts w) = acts"
  by (simp add: added_def emit_def)

lemma written_time_actions:
  "written (stream ev) (time_actions b ev) = time_text b ev"
  by (simp add: time_actions_def time_text_def written_Cons written_Nil)

lemma length_level_field: "length (left_justify 5 (log_level_string lv)) = 5"
  by (cases lv) (simp_all add: left_justify_def log_level_string_def level_strings_def)

section \<open>Registering a sink\<close>

lemma add_callback_from_full:
  "(\<And>k. i \<le> k \<Longrightarrow> k < length (callbacks (L w)) \<Longrightarrow> cb_fn (callbacks (L w) ! k) \<noteq> None)
   \<Longrightarrow> add_callback_from i g s lv w = (- 1, w)"
proof (induction i g s lv w rule: add_callback_from.induct)
  case (1 i g s lv w)
  show ?case
  proof (cases "i < length (callbacks (L w))")
    case False
    then show ?thesis
      by (simp add: add_callback_from.simps [of i g s lv w] LOGC__MAX_CALLBACKS_def)
  next
    case True
    then have ne: "cb_fn (callbacks (L w) ! i) \<noteq> None"
      using "1.prems" [of i] by simp
    have "add_callback_from (i + 1) g s lv w = (- 1, w)"
      using "1.IH" True ne "1.prems" by (simp add: LOGC__MAX_CALLBACKS_def)
    with True ne show ?thesis
      by (simp add: add_callback_from.simps [of i g s lv w] LOGC__MAX_CALLBACKS_def)
  qed
qed

lemma add_callback_from_first:
  "i \<le> j \<Longrightarrow> j < length (callbacks (L w)) \<Longrightarrow> cb_fn (callbacks (L w) ! j) = None
   \<Longrightarrow> (\<And>k. i \<le> k \<Longrightarrow> k < j \<Longrightarrow> cb_fn (callbacks (L w) ! k) \<noteq> None)
   \<Longrightarrow> add_callback_from i g s lv w =
         (0, w\<lparr>L := (L w)\<lparr>callbacks :=
                (callbacks (L w))[j := \<lparr>cb_fn = g, cb_stream = s, cb_level = lv\<rparr>]\<rparr>\<rparr>)"
proof (induction i g s lv w rule: add_callback_from.induct)
  case (1 i g s lv w)
  have lt: "i < length (callbacks (L w))"
    using "1.prems"(1,2) by simp
  show ?case
  proof (cases "i = j")
    case True
    with lt "1.prems"(3) show ?thesis
      by (simp add: add_callback_from.simps [of j g s lv w] LOGC__MAX_CALLBACKS_def)
  next
    case False
    then have ij: "i < j"
      using "1.prems"(1) by simp
    then have ne: "cb_fn (callbacks (L w) ! i) \<noteq> None"
      using "1.prems"(4) [of i] by simp
    have "add_callback_from (i + 1) g s lv w =
        (0, w\<lparr>L := (L w)\<lparr>callbacks :=
              (callbacks (L w))[j := \<lparr>cb_fn = g, cb_stream = s, cb_level = lv\<rparr>]\<rparr>\<rparr>)"
      using "1.IH" lt ne ij "1.prems"(2,3,4) by (simp add: LOGC__MAX_CALLBACKS_def)
    with lt ne show ?thesis
      by (auto simp add: add_callback_from.simps [of i g s lv w] LOGC__MAX_CALLBACKS_def)
  qed
qed

lemma log_add_callback_full:
  "\<forall>cb \<in> set (callbacks (L w)). cb_fn cb \<noteq> None \<Longrightarrow> log_add_callback g s lv w = (- 1, w)"
  unfolding log_add_callback_def
  by (rule add_callback_from_full) simp

lemma log_add_callback_first:
  assumes cbs: "callbacks (L w) = ps @ e # rest"
    and ps: "\<forall>cb \<in> set ps. cb_fn cb \<noteq> None"
    and e: "cb_fn e = None"
  shows "log_add_callback g s lv w =
    (0, w\<lparr>L := (L w)\<lparr>callbacks := ps @ \<lparr>cb_fn = g, cb_stream = s, cb_level = lv\<rparr> # rest\<rparr>\<rparr>)"
proof -
  have "add_callback_from 0 g s lv w =
      (0, w\<lparr>L := (L w)\<lparr>callbacks :=
            (callbacks (L w))[length ps := \<lparr>cb_fn = g, cb_stream = s, cb_level = lv\<rparr>]\<rparr>\<rparr>)"
  proof (rule add_callback_from_first)
    show "0 \<le> length ps" by simp
    show "length ps < length (callbacks (L w))" by (simp add: cbs)
    show "cb_fn (callbacks (L w) ! length ps) = None" by (simp add: cbs e)
  next
    fix k assume "k < length ps"
    then show "cb_fn (callbacks (L w) ! k) \<noteq> None"
      using ps by (simp add: cbs nth_append)
  qed
  then show ?thesis
    by (simp add: log_add_callback_def cbs)
qed

lemma prefix_inv_splitD:
  assumes "prefix_inv cbs"
  obtains ps es where "cbs = ps @ es" and "\<forall>cb \<in> set ps. cb_fn cb \<noteq> None"
    and "\<forall>cb \<in> set es. cb_fn cb = None"
proof
  show "cbs = takeWhile (\<lambda>cb. cb_fn cb \<noteq> None) cbs @ dropWhile (\<lambda>cb. cb_fn cb \<noteq> None) cbs"
    by simp
  show "\<forall>cb \<in> set (takeWhile (\<lambda>cb. cb_fn cb \<noteq> None) cbs). cb_fn cb \<noteq> None"
  proof
    fix cb
    assume "cb \<in> set (takeWhile (\<lambda>cb. cb_fn cb \<noteq> None) cbs)"
    then have "cb \<in> set cbs \<and> cb_fn cb \<noteq> None"
      by (rule set_takeWhileD)
    then show "cb_fn cb \<noteq> None" ..
  qed
  show "\<forall>cb \<in> set (dropWhile (\<lambda>cb. cb_fn cb \<noteq> None) cbs). cb_fn cb = None"
    using assms unfolding prefix_inv_def list_all_iff .
qed

lemma prefix_inv_splitI:
  assumes cbs: "cbs = ps @ es" and ps: "\<forall>cb \<in> set ps. cb_fn cb \<noteq> None"
    and es: "\<forall>cb \<in> set es. cb_fn cb = None"
  shows "prefix_inv cbs"
proof -
  have "dropWhile (\<lambda>cb. cb_fn cb \<noteq> None) cbs = dropWhile (\<lambda>cb. cb_fn cb \<noteq> None) es"
    using ps by (simp add: cbs dropWhile_append)
  also have "\<dots> = es"
    using es by (cases es) simp_all
  finally show "prefix_inv cbs"
    using es unfolding prefix_inv_def list_all_iff by simp
qed

lemma prefix_inv_nth:
  assumes "prefix_inv cbs" and "i < j" and "j < length cbs" and "cb_fn (cbs ! i) = None"
  shows "cb_fn (cbs ! j) = None"
proof -
  obtain ps es where cbs: "cbs = ps @ es" and ps: "\<forall>cb \<in> set ps. cb_fn cb \<noteq> None"
    and es: "\<forall>cb \<in> set es. cb_fn cb = None"
    using assms(1) by (rule prefix_inv_splitD)
  have "\<not> i < length ps"
  proof
    assume lt: "i < length ps"
    then have "ps ! i \<in> set ps" by simp
    then have "cb_fn (ps ! i) \<noteq> None" using ps by blast
    then show False using assms(4) lt by (simp add: cbs nth_append)
  qed
  then have "length ps \<le> j" "j - length ps < length es"
    using assms(2,3) by (simp_all add: cbs)
  then show ?thesis
    using es by (simp add: cbs nth_append)
qed

lemma prefix_inv_add:
  assumes "prefix_inv (callbacks (L w))"
  shows "prefix_inv (callbacks (L (snd (log_add_callback g s lv w))))"
proof -
  obtain ps es where cbs: "callbacks (L w) = ps @ es"
    and ps: "\<forall>cb \<in> set ps. cb_fn cb \<noteq> None" and es: "\<forall>cb \<in> set es. cb_fn cb = None"
    using assms by (rule prefix_inv_splitD)
  show ?thesis
  proof (cases es)
    case Nil
    then have "log_add_callback g s lv w = (- 1, w)"
      using ps cbs by (simp add: log_add_callback_full)
    then show ?thesis using assms by simp
  next
    case (Cons e rest)
    have e: "cb_fn e = None" and rest: "\<forall>cb \<in> set rest. cb_fn cb = None"
      using es Cons by simp_all
    have cbs': "callbacks (L w) = ps @ e # rest"
      using cbs Cons by simp
    have "log_add_callback g s lv w =
        (0, w\<lparr>L := (L w)\<lparr>callbacks := ps @ \<lparr>cb_fn = g, cb_stream = s, cb_level = lv\<rparr> # rest\<rparr>\<rparr>)"
      by (rule log_add_callback_first [OF cbs' ps e])
    moreover have "prefix_inv (ps @ \<lparr>cb_fn = g, cb_stream = s, cb_level = lv\<rparr> # rest)"
    proof (cases g)
      case None
      then show ?thesis
        using ps rest
        by (intro prefix_inv_splitI [of _ ps "\<lparr>cb_fn = g, cb_stream = s, cb_level = lv\<rparr> # rest"])
          simp_all
    next
      case (Some h)
      then show ?thesis
        using ps rest
        by (intro prefix_inv_splitI
              [of _ "ps @ [\<lparr>cb_fn = g, cb_stream = s, cb_level = lv\<rparr>]" rest])
          simp_all
    qed
    ultimately show ?thesis by simp
  qed
qed

lemma prefix_inv_perform:
  "prefix_inv (callbacks (L w)) \<Longrightarrow> prefix_inv (callbacks (L (perform b x w)))"
  by (cases x)
    (simp_all add: log_set_level_def log_set_quiet_def log_set_lock_def log_add_fp_def
      prefix_inv_add L_log_log)

lemma prefix_inv_apply_op:
  "prefix_inv (callbacks (L w)) \<Longrightarrow> prefix_inv (callbacks (L (apply_op b x w)))"
  by (simp add: apply_op_def prefix_inv_perform)

lemma prefix_inv_run:
  "prefix_inv (callbacks (L w)) \<Longrightarrow> prefix_inv (callbacks (L (run b xs w)))"
  by (induction xs arbitrary: w) (simp_all add: prefix_inv_apply_op)

lemma prefix_inv_init: "prefix_inv (callbacks (L (init_state n c)))"
  by (rule prefix_inv_splitI [of _ "[]" "replicate n empty_slot"])
    (simp_all add: init_state_def L_init_def empty_slot_def)

lemma add_all_fits:
  "callbacks (L w) = ps @ replicate (length xs + m) empty_slot
   \<Longrightarrow> \<forall>cb \<in> set ps. cb_fn cb \<noteq> None
   \<Longrightarrow> \<forall>x \<in> set xs. fst x \<noteq> None
   \<Longrightarrow> add_all xs w =
         (replicate (length xs) 0,
          w\<lparr>L := (L w)\<lparr>callbacks := ps @ map slot_of xs @ replicate m empty_slot\<rparr>\<rparr>)"
proof (induction xs arbitrary: w ps)
  case Nil
  then show ?case by simp
next
  case (Cons x xs)
  let ?new = "\<lparr>cb_fn = fst x, cb_stream = fst (snd x), cb_level = snd (snd x)\<rparr>"
  let ?w1 = "w\<lparr>L := (L w)\<lparr>callbacks := ps @ ?new # replicate (length xs + m) empty_slot\<rparr>\<rparr>"
  have cbs: "callbacks (L w) = ps @ empty_slot # replicate (length xs + m) empty_slot"
    using Cons.prems(1) by simp
  have e: "cb_fn empty_slot = None"
    by (simp add: empty_slot_def)
  have step: "log_add_callback (fst x) (fst (snd x)) (snd (snd x)) w = (0, ?w1)"
    by (rule log_add_callback_first [OF cbs Cons.prems(2) e])
  have rest: "add_all xs ?w1 =
      (replicate (length xs) 0,
       ?w1\<lparr>L := (L ?w1)\<lparr>callbacks := (ps @ [?new]) @ map slot_of xs @ replicate m empty_slot\<rparr>\<rparr>)"
  proof (rule Cons.IH)
    show "callbacks (L ?w1) = (ps @ [?new]) @ replicate (length xs + m) empty_slot"
      by simp
    show "\<forall>cb \<in> set (ps @ [?new]). cb_fn cb \<noteq> None"
      using Cons.prems(2,3) by simp
    show "\<forall>x \<in> set xs. fst x \<noteq> None"
      using Cons.prems(3) by simp
  qed
  show ?case
    by (simp add: step rest Let_def slot_of_def)
qed

lemma registered_callbacks:
  assumes "\<forall>x \<in> set sinks. fst x \<noteq> None"
  shows "add_all sinks (init_state (length sinks) c) =
    (replicate (length sinks) 0,
     (init_state (length sinks) c)\<lparr>L := (L_init (length sinks))\<lparr>callbacks := map slot_of sinks\<rparr>\<rparr>)"
  using add_all_fits [of "init_state (length sinks) c" "[]" sinks 0] assms
  by (simp add: init_state_def L_init_def)

lemma qualifying_populated:
  assumes "\<forall>cb \<in> set cbs. cb_fn cb \<noteq> None"
  shows "qualifying lv cbs = filter (\<lambda>cb. level_value lv \<ge> level_value (cb_level cb)) cbs"
proof -
  have "takeWhile (\<lambda>cb. cb_fn cb \<noteq> None) cbs = cbs"
    using assms by (induction cbs) simp_all
  then show ?thesis
    by (simp only: qualifying_def)
qed

text \<open>The first sink of a registry.\<close>

lemma add_first_sink:
  "log_add_callback g s lv (init_state (Suc n) c) =
     (0, (init_state (Suc n) c)\<lparr>L := (L_init (Suc n))\<lparr>callbacks :=
            \<lparr>cb_fn = g, cb_stream = s, cb_level = lv\<rparr> # replicate n empty_slot\<rparr>\<rparr>)"
  using log_add_callback_first [of "init_state (Suc n) c" "[]" empty_slot
      "replicate n empty_slot" g s lv]
  by (simp add: init_state_def L_init_def empty_slot_def)

lemma qualifying_single:
  "cb_fn cb \<noteq> None \<Longrightarrow>
   qualifying lv (cb # replicate n empty_slot) =
     (if level_value lv \<ge> level_value (cb_level cb) then [cb] else [])"
  by (cases n) (auto simp: qualifying_Cons qualifying_Nil empty_slot_def)

lemma add_first_sink_of_ten:
  "log_add_callback g s lv (init_state 10 c) =
     (0, (init_state 10 c)\<lparr>L := (L_init 10)\<lparr>callbacks :=
            \<lparr>cb_fn = g, cb_stream = s, cb_level = lv\<rparr> # replicate 9 empty_slot\<rparr>\<rparr>)"
  using add_first_sink [of g s lv 9 c] by simp

lemma dead_add_callback_from:
  "dead (snd (add_callback_from i g s lv w)) = dead w"
proof (induction i g s lv w rule: add_callback_from.induct)
  case (1 i g s lv w)
  show ?case
  proof (cases "i < LOGC__MAX_CALLBACKS w \<and> cb_fn (callbacks (L w) ! i) \<noteq> None")
    case True
    then show ?thesis
      using "1.IH" by (simp add: add_callback_from.simps [of i g s lv w])
  next
    case False
    then show ?thesis
      by (auto simp add: add_callback_from.simps [of i g s lv w])
  qed
qed

lemma dead_log_add_callback: "dead (snd (log_add_callback g s lv w)) = dead w"
  by (simp add: log_add_callback_def dead_add_callback_from)

text \<open>The concrete states, and the equations that evaluate a call.\<close>

lemma registered_fatal_sink:
  "registered fatal_sink noon =
     \<lparr>L = \<lparr>lock_ptr = 0, lock_fn = None, std_level = LOG_FATAL, std_quiet = False,
           callbacks = [\<lparr>cb_fn = Some (User_fn 1), cb_stream = 8, cb_level = LOG_FATAL\<rparr>]\<rparr>,
        trace = [], clock = noon, ticks = 0, dead = False\<rparr>"
proof -
  have h: "\<forall>x \<in> set fatal_sink. fst x \<noteq> None"
    by (simp add: fatal_sink_def)
  show ?thesis
    using registered_callbacks [OF h, of noon]
    by (simp add: registered_def init_state_def L_init_def fatal_sink_def slot_of_def)
qed

lemma registered_error_sinks:
  "registered error_sinks noon =
     \<lparr>L = \<lparr>lock_ptr = 0, lock_fn = None, std_level = LOG_FATAL, std_quiet = False,
           callbacks =
             [\<lparr>cb_fn = Some (User_fn 1), cb_stream = 8, cb_level = LOG_ERROR\<rparr>,
              \<lparr>cb_fn = Some (User_fn 2), cb_stream = 9, cb_level = LOG_ERROR\<rparr>]\<rparr>,
        trace = [], clock = noon, ticks = 0, dead = False\<rparr>"
proof -
  have h: "\<forall>x \<in> set error_sinks. fst x \<noteq> None"
    by (simp add: error_sinks_def)
  show ?thesis
    using registered_callbacks [OF h, of noon]
    by (simp add: registered_def init_state_def L_init_def error_sinks_def slot_of_def)
qed

lemma registered_file_then_user:
  "registered file_then_user noon =
     \<lparr>L = \<lparr>lock_ptr = 0, lock_fn = None, std_level = LOG_FATAL, std_quiet = False,
           callbacks =
             [\<lparr>cb_fn = Some File_callback, cb_stream = 7, cb_level = LOG_ERROR\<rparr>,
              \<lparr>cb_fn = Some (User_fn 1), cb_stream = 8, cb_level = LOG_ERROR\<rparr>]\<rparr>,
        trace = [], clock = noon, ticks = 0, dead = False\<rparr>"
proof -
  have h: "\<forall>x \<in> set file_then_user. fst x \<noteq> None"
    by (simp add: file_then_user_def)
  show ?thesis
    using registered_callbacks [OF h, of noon]
    by (simp add: registered_def init_state_def L_init_def file_then_user_def slot_of_def)
qed

lemmas eval_log =
  log_actions_def log_dies_def hook_actions_def std_actions_def std_passes_def std_dies_def
  std_ticks_def qualifying_Cons qualifying_Nil delivered_Cons delivered_Nil sink_dies_def
  stdout_actions_def file_actions_def time_actions_def plain_build_def default_build_def
  noon_def log_level_string_def level_strings_def left_justify_def printf_d_def int32_def
  show_int_def show_nat.simps

section \<open>The claims\<close>

subsection \<open>C1: the end-to-end example\<close>

text \<open>
  C1. The spec's example: threshold WARN for the standard stream, not quiet, one file sink at
  threshold ERROR. The spec expects nothing at INFO, a standard line only at WARN, and both
  lines at ERROR. The levels are numbered from FATAL = 0 to TRACE = 5 and both tests of
  \<^verbatim>\<open>log_log\<close> are \<^verbatim>\<open>level >= threshold\<close>, so the source does the opposite: at INFO it writes both
  lines, at WARN both lines, and at ERROR the file line only. The theorem evaluates the
  three calls in the build without timestamps (stream 2 is the standard stream, stream 7 the
  file).
\<close>

theorem end_to_end_filtering_inverted:
  "written 2 (added end_to_end_state
      (log_log plain_build LOG_INFO ''main.c'' 3 ''started'' [] end_to_end_state))
     = ''INFO  main.c:3: started'' @ [CHR 0x0A]
   \<and> written 7 (added end_to_end_state
      (log_log plain_build LOG_INFO ''main.c'' 3 ''started'' [] end_to_end_state))
     = ''INFO  main.c:3: started'' @ [CHR 0x0A]
   \<and> written 2 (added end_to_end_state
      (log_log plain_build LOG_WARN ''main.c'' 3 ''started'' [] end_to_end_state))
     = ''WARN  main.c:3: started'' @ [CHR 0x0A]
   \<and> written 7 (added end_to_end_state
      (log_log plain_build LOG_WARN ''main.c'' 3 ''started'' [] end_to_end_state))
     = ''WARN  main.c:3: started'' @ [CHR 0x0A]
   \<and> written 2 (added end_to_end_state
      (log_log plain_build LOG_ERROR ''main.c'' 3 ''started'' [] end_to_end_state))
     = []
   \<and> written 7 (added end_to_end_state
      (log_log plain_build LOG_ERROR ''main.c'' 3 ''started'' [] end_to_end_state))
     = ''ERROR main.c:3: started'' @ [CHR 0x0A]"
proof -
  have w: "end_to_end_state =
      \<lparr>L = \<lparr>lock_ptr = 0, lock_fn = None, std_level = LOG_WARN, std_quiet = False,
            callbacks = \<lparr>cb_fn = Some File_callback, cb_stream = 7, cb_level = LOG_ERROR\<rparr>
              # replicate 9 empty_slot\<rparr>,
         trace = [], clock = noon, ticks = 0, dead = False\<rparr>"
    by (simp add: end_to_end_state_def log_add_fp_def add_first_sink_of_ten)
      (simp add: log_set_quiet_def log_set_level_def init_state_def L_init_def)
  have alive: "\<not> dead end_to_end_state"
    by (simp add: w)
  have fmt: "LOGC__TIME_FORMAT plain_build \<noteq> 2"
    by (simp add: plain_build_def default_build_def)
  show ?thesis
    by (simp add: added_log_log [OF alive] log_lives(2) [OF fmt])
      (simp add: w log_body_def hook_actions_def std_actions_def std_passes_def
        std_ticks_def qualifying_single stdout_actions_def file_actions_def time_actions_def
        plain_build_def default_build_def noon_def log_level_string_def level_strings_def
        left_justify_def printf_d_def int32_def show_int_def show_nat.simps written_Cons
        written_Nil)
qed

subsection \<open>C2: the threshold of a sink\<close>

text \<open>
  C2. The spec expects a sink registered at threshold \<open>L2\<close> to receive the events at \<open>L2\<close> and
  at every more severe level \<open>L1 < L2\<close>, and none at a less severe level. With \<open>L1\<close> = FATAL and
  \<open>L2\<close> = ERROR the source, whose test is \<^verbatim>\<open>level >= cb->level\<close> on the numbers 0 and 1, does not
  deliver the FATAL event to the sink, delivers the ERROR event, and delivers the less
  severe INFO event.
\<close>

theorem sink_at_error_misses_fatal:
  "added one_sink_at_error
     (log_log default_build LOG_FATAL ''main.c'' 3 ''started'' [] one_sink_at_error) = []
   \<and> added one_sink_at_error
     (log_log default_build LOG_ERROR ''main.c'' 3 ''started'' [] one_sink_at_error) =
     [Fn_call 1 \<lparr>fmt = ''started'', ev_file = ''main.c'', line = 3, level = LOG_ERROR,
        time = 1767268800, stream = 8, ap = []\<rparr>]
   \<and> added one_sink_at_error
     (log_log default_build LOG_INFO ''main.c'' 3 ''started'' [] one_sink_at_error) =
     [Fn_call 1 \<lparr>fmt = ''started'', ev_file = ''main.c'', line = 3, level = LOG_INFO,
        time = 1767268800, stream = 8, ap = []\<rparr>]"
proof -
  have w: "one_sink_at_error =
      \<lparr>L = \<lparr>lock_ptr = 0, lock_fn = None, std_level = LOG_FATAL, std_quiet = True,
            callbacks = \<lparr>cb_fn = Some (User_fn 1), cb_stream = 8, cb_level = LOG_ERROR\<rparr>
              # replicate 9 empty_slot\<rparr>,
         trace = [], clock = noon, ticks = 0, dead = False\<rparr>"
    by (simp add: one_sink_at_error_def add_first_sink_of_ten)
      (simp add: log_set_quiet_def init_state_def L_init_def)
  have alive: "\<not> dead one_sink_at_error"
    by (simp add: w)
  show ?thesis
    by (simp add: added_log_log [OF alive])
      (simp add: w log_actions_def log_dies_def hook_actions_def std_actions_def std_passes_def
        std_dies_def std_ticks_def qualifying_single delivered_Cons delivered_Nil sink_dies_def
        noon_def)
qed

subsection \<open>C3: the capacity of the registry\<close>

text \<open>
  C3. The spec expects that, once the registry is full, a further registration is refused
  and leaves everything as it was, and that events logged afterwards at qualifying levels
  still reach all the sinks registered before. The first half is what the source does: in a
  registry of two slots, two registrations return \<open>0\<close>, the third returns \<open>-1\<close> and the
  state is unchanged. The second half is not: in the build without timestamps an event at
  ERROR reaches the two sinks registered at ERROR, but an event at FATAL, which is more
  severe, reaches neither, since the loop tests \<^verbatim>\<open>level >= cb->level\<close> on the numbers 0 and 1;
  and in the default build the call dies in \<^verbatim>\<open>stdout_callback\<close> before it reaches any sink.
\<close>

theorem refused_registration_then_fatal:
  "fst (add_all error_sinks (init_state 2 noon)) = [0, 0]
   \<and> log_add_callback (Some (User_fn 3)) 10 LOG_ERROR (registered error_sinks noon)
       = (- 1, registered error_sinks noon)
   \<and> added (registered error_sinks noon)
       (log_log plain_build LOG_ERROR ''main.c'' 3 ''started'' []
          (snd (log_add_callback (Some (User_fn 3)) 10 LOG_ERROR (registered error_sinks noon))))
     = [Fprintf 2 ''ERROR '', Fprintf 2 ''main.c:3: '', Fprintf 2 ''started'',
        Fprintf 2 [CHR 0x0A], Fflush 2,
        Fn_call 1 \<lparr>fmt = ''started'', ev_file = ''main.c'', line = 3, level = LOG_ERROR,
           time = 1767268800, stream = 8, ap = []\<rparr>,
        Fn_call 2 \<lparr>fmt = ''started'', ev_file = ''main.c'', line = 3, level = LOG_ERROR,
           time = 1767268800, stream = 9, ap = []\<rparr>]
   \<and> added (registered error_sinks noon)
       (log_log plain_build LOG_FATAL ''main.c'' 3 ''started'' []
          (snd (log_add_callback (Some (User_fn 3)) 10 LOG_ERROR (registered error_sinks noon))))
     = [Fprintf 2 ''FATAL '', Fprintf 2 ''main.c:3: '', Fprintf 2 ''started'',
        Fprintf 2 [CHR 0x0A], Fflush 2]
   \<and> added (registered error_sinks noon)
       (log_log default_build LOG_ERROR ''main.c'' 3 ''started'' []
          (snd (log_add_callback (Some (User_fn 3)) 10 LOG_ERROR (registered error_sinks noon))))
     = []
   \<and> dead (log_log default_build LOG_ERROR ''main.c'' 3 ''started'' []
          (snd (log_add_callback (Some (User_fn 3)) 10 LOG_ERROR (registered error_sinks noon))))"
proof -
  have h: "\<forall>x \<in> set error_sinks. fst x \<noteq> None"
    by (simp add: error_sinks_def)
  have r: "fst (add_all error_sinks (init_state 2 noon)) = [0, 0]"
    using registered_callbacks [OF h, of noon] by (simp add: error_sinks_def numeral_2_eq_2)
  have full: "log_add_callback (Some (User_fn 3)) 10 LOG_ERROR (registered error_sinks noon)
       = (- 1, registered error_sinks noon)"
    by (rule log_add_callback_full) (simp add: registered_error_sinks)
  have alive: "\<not> dead (registered error_sinks noon)"
    by (simp add: registered_error_sinks)
  show ?thesis
    by (simp add: r full added_log_log [OF alive] dead_log_log [OF alive])
      (simp add: registered_error_sinks eval_log)
qed

subsection \<open>C4: the names of the levels\<close>

text \<open>
  C4. \<^verbatim>\<open>log_level_string\<close> returns the strings FATAL, ERROR, WARN, INFO, DEBUG, TRACE for
  the levels numbered 0 to 5, in this order. Every value of the enumeration is one of the
  six, so the lookup never leaves the table.
\<close>

theorem log_level_string_table:
  "map level_value [LOG_FATAL, LOG_ERROR, LOG_WARN, LOG_INFO, LOG_DEBUG, LOG_TRACE]
     = [0, 1, 2, 3, 4, 5]
   \<and> map log_level_string [LOG_FATAL, LOG_ERROR, LOG_WARN, LOG_INFO, LOG_DEBUG, LOG_TRACE]
     = [''FATAL'', ''ERROR'', ''WARN'', ''INFO'', ''DEBUG'', ''TRACE'']
   \<and> level_value lv < length level_strings"
  by (cases lv) (simp_all add: log_level_string_def level_strings_def)

subsection \<open>C5: quiet mode\<close>

text \<open>
  C5. The spec expects that the quiet flag suppresses the standard output and leaves the
  delivery to the sinks as it is without the flag. In the default build it does not: with
  the flag set the call skips \<^verbatim>\<open>stdout_callback\<close>, reaches the sink and returns; with the
  flag unset the call dies in \<^verbatim>\<open>stdout_callback\<close>, where the time is rendered, and the sink
  is never reached.
\<close>

theorem quiet_changes_delivery:
  "added quiet_state (log_log default_build LOG_FATAL ''main.c'' 3 ''started'' [] quiet_state) =
     [Fn_call 1 \<lparr>fmt = ''started'', ev_file = ''main.c'', line = 3, level = LOG_FATAL,
        time = 1767268800, stream = 8, ap = []\<rparr>]
   \<and> \<not> dead (log_log default_build LOG_FATAL ''main.c'' 3 ''started'' [] quiet_state)
   \<and> added loud_state (log_log default_build LOG_FATAL ''main.c'' 3 ''started'' [] loud_state) = []
   \<and> dead (log_log default_build LOG_FATAL ''main.c'' 3 ''started'' [] loud_state)"
proof -
  have q: "quiet_state = (registered fatal_sink noon)
      \<lparr>L := (L (registered fatal_sink noon))\<lparr>std_quiet := True\<rparr>\<rparr>"
    and l: "loud_state = (registered fatal_sink noon)
      \<lparr>L := (L (registered fatal_sink noon))\<lparr>std_quiet := False\<rparr>\<rparr>"
    by (simp_all add: quiet_state_def loud_state_def log_set_quiet_def)
  have alive: "\<not> dead quiet_state" "\<not> dead loud_state"
    by (simp_all add: q l registered_fatal_sink)
  show ?thesis
    by (simp add: added_log_log alive dead_log_log)
      (simp add: q l registered_fatal_sink eval_log)
qed

subsection \<open>C6: the lock hook\<close>

text \<open>
  C6. The spec expects one call of the lock function with \<open>true\<close> before the writes and one
  with \<open>false\<close> after them. In the default build a call of \<^verbatim>\<open>log_log\<close> that reaches a formatter
  calls the lock function with \<open>true\<close> and dies in the formatter: nothing is written and the
  lock is never released. In the build without timestamps the same call does what the spec
  expects.
\<close>

theorem lock_not_released:
  "added locked_state (log_log default_build LOG_FATAL ''main.c'' 3 ''started'' [] locked_state)
     = [Lock_call 5 True 9]
   \<and> dead (log_log default_build LOG_FATAL ''main.c'' 3 ''started'' [] locked_state)
   \<and> added locked_state (log_log plain_build LOG_FATAL ''main.c'' 3 ''started'' [] locked_state)
     = [Lock_call 5 True 9,
        Fprintf 2 ''FATAL '', Fprintf 2 ''main.c:3: '', Fprintf 2 ''started'',
        Fprintf 2 [CHR 0x0A], Fflush 2,
        Fn_call 1 \<lparr>fmt = ''started'', ev_file = ''main.c'', line = 3, level = LOG_FATAL,
           time = 1767268800, stream = 8, ap = []\<rparr>,
        Lock_call 5 False 9]"
proof -
  have w: "locked_state = (registered fatal_sink noon)
      \<lparr>L := (L (registered fatal_sink noon))\<lparr>lock_fn := Some 5, lock_ptr := 9\<rparr>\<rparr>"
    by (simp add: locked_state_def log_set_lock_def)
  have alive: "\<not> dead locked_state"
    by (simp add: w registered_fatal_sink)
  show ?thesis
    by (simp add: added_log_log alive dead_log_log)
      (simp add: w registered_fatal_sink eval_log)
qed

subsection \<open>C7: the order of delivery\<close>

text \<open>
  C7. The spec expects the event to be delivered to the qualifying sinks in registration
  order. With a file sink registered before a sink of the caller's, both at threshold ERROR,
  an event at ERROR qualifies for both. In the default build the call dies in
  \<^verbatim>\<open>file_callback\<close>, the first delivery, before anything is written, and the second sink
  never receives the event. In the build without timestamps both are delivered to, in slot
  order.
\<close>

theorem file_sink_stops_delivery:
  "qualifying LOG_ERROR (callbacks (L file_then_user_state)) =
     [\<lparr>cb_fn = Some File_callback, cb_stream = 7, cb_level = LOG_ERROR\<rparr>,
      \<lparr>cb_fn = Some (User_fn 1), cb_stream = 8, cb_level = LOG_ERROR\<rparr>]
   \<and> added file_then_user_state
       (log_log default_build LOG_ERROR ''main.c'' 3 ''started'' [] file_then_user_state) = []
   \<and> dead (log_log default_build LOG_ERROR ''main.c'' 3 ''started'' [] file_then_user_state)
   \<and> added file_then_user_state
       (log_log plain_build LOG_ERROR ''main.c'' 3 ''started'' [] file_then_user_state) =
     [Fprintf 7 ''ERROR main.c:3: '', Fprintf 7 ''started'', Fprintf 7 [CHR 0x0A], Fflush 7,
      Fn_call 1 \<lparr>fmt = ''started'', ev_file = ''main.c'', line = 3, level = LOG_ERROR,
         time = 1767268800, stream = 8, ap = []\<rparr>]"
proof -
  have w: "file_then_user_state = (registered file_then_user noon)
      \<lparr>L := (L (registered file_then_user noon))\<lparr>std_quiet := True\<rparr>\<rparr>"
    by (simp add: file_then_user_state_def log_set_quiet_def)
  have alive: "\<not> dead file_then_user_state"
    by (simp add: w registered_file_then_user)
  show ?thesis
    by (simp add: added_log_log alive dead_log_log)
      (simp add: w registered_file_then_user eval_log)
qed

subsection \<open>C8: the text of a line\<close>

text \<open>
  C8, as the spec has it: both formatters emit the level name left-padded to 5 characters.
  The source prints the name with \<^verbatim>\<open>%-5s\<close>, which pads on the right: for a WARN event and a
  build without timestamps the line starts with \<open>WARN\<close> and a space, not with a space and
  \<open>WARN\<close>.
\<close>

theorem level_field_not_left_padded:
  "written 7 (added (init_state 10 noon) (file_callback plain_build warn_event (init_state 10 noon)))
     = ''WARN  main.c:3: started'' @ [CHR 0x0A]
   \<and> left_pad 5 (log_level_string (level warn_event)) = '' WARN''
   \<and> \<not> prefix (left_pad 5 (log_level_string (level warn_event)))
         (written 7 (added (init_state 10 noon)
            (file_callback plain_build warn_event (init_state 10 noon))))"
  by (simp add: file_callback_emit added_emit_plain file_actions_def time_actions_def
      plain_build_def default_build_def warn_event_def written_Cons written_Nil
      left_justify_def left_pad_def log_level_string_def level_strings_def printf_d_def
      int32_def show_int_def show_nat.simps)

text \<open>
  C8, amended. In a build whose time format is not 2, both formatters emit, after the
  timestamp of time format 1 if any, the level name left-justified in a field of 5
  characters (filled with spaces on the right) and a space (in colour mode the field stands
  between the colour code and the reset code); then the file formatter always, and the
  standard formatter unless \<^verbatim>\<open>LOGC__STDOUT_NO_FILEINFO\<close> is defined, emits \<^verbatim>\<open>file:line:\<close> and a
  space; then comes the expansion of the format string and one newline. The last action of
  either formatter is the flush of its stream, and the formatter returns.
\<close>

theorem formatter_lines:
  assumes "LOGC__TIME_FORMAT b \<noteq> 2"
  shows "written (stream ev) (added w (file_callback b ev w)) =
     time_text b ev
     @ left_justify 5 (log_level_string (level ev)) @ '' ''
     @ ev_file ev @ '':'' @ printf_d (line ev) @ '': ''
     @ vsprintf b (fmt ev) (ap ev) @ [CHR 0x0A]
   \<and> last (added w (file_callback b ev w)) = Fflush (stream ev)
   \<and> dead (file_callback b ev w) = dead w
   \<and> written (stream ev) (added w (stdout_callback b ev w)) =
     time_text b ev
     @ (if LOGC__STDOUT_COLOR b
          then level_colors ! level_value (level ev)
                 @ left_justify 5 (log_level_string (level ev)) @ ESC @ ''[0m ''
        else left_justify 5 (log_level_string (level ev)) @ '' '')
     @ (if LOGC__STDOUT_NO_FILEINFO b then []
        else if LOGC__STDOUT_COLOR b
          then ESC @ ''[90m'' @ ev_file ev @ '':'' @ printf_d (line ev) @ '':'' @ ESC @ ''[0m ''
        else ev_file ev @ '':'' @ printf_d (line ev) @ '': '')
     @ vsprintf b (fmt ev) (ap ev) @ [CHR 0x0A]
   \<and> last (added w (stdout_callback b ev w)) = Fflush (stream ev)
   \<and> dead (stdout_callback b ev w) = dead w
   \<and> left_justify 5 (log_level_string lv) =
       log_level_string lv @ replicate (5 - length (log_level_string lv)) (CHR '' '')
   \<and> length (left_justify 5 (log_level_string lv)) = 5"
proof -
  have f: "written (stream ev) (file_actions b ev) =
     time_text b ev
     @ left_justify 5 (log_level_string (level ev)) @ '' ''
     @ ev_file ev @ '':'' @ printf_d (line ev) @ '': ''
     @ vsprintf b (fmt ev) (ap ev) @ [CHR 0x0A]"
    by (simp add: file_actions_def written_append written_time_actions written_Cons written_Nil)
  have s: "written (stream ev) (stdout_actions b ev) =
     time_text b ev
     @ (if LOGC__STDOUT_COLOR b
          then level_colors ! level_value (level ev)
                 @ left_justify 5 (log_level_string (level ev)) @ ESC @ ''[0m ''
        else left_justify 5 (log_level_string (level ev)) @ '' '')
     @ (if LOGC__STDOUT_NO_FILEINFO b then []
        else if LOGC__STDOUT_COLOR b
          then ESC @ ''[90m'' @ ev_file ev @ '':'' @ printf_d (line ev) @ '':'' @ ESC @ ''[0m ''
        else ev_file ev @ '':'' @ printf_d (line ev) @ '': '')
     @ vsprintf b (fmt ev) (ap ev) @ [CHR 0x0A]"
    by (simp add: stdout_actions_def written_append written_time_actions written_Cons
        written_Nil)
  have lf: "last (file_actions b ev) = Fflush (stream ev)"
    by (simp add: file_actions_def)
  have ls: "last (stdout_actions b ev) = Fflush (stream ev)"
    by (simp add: stdout_actions_def)
  have d: "dead (emit acts w) = dead w" for acts
    by (simp add: emit_def)
  show ?thesis
    using assms
    by (simp add: file_callback_emit stdout_callback_emit added_emit_plain f s lf ls d
        length_level_field) (simp add: left_justify_def)
qed

theorem formatter_lines_witness:
  "LOGC__TIME_FORMAT plain_build \<noteq> 2
   \<and> written 7 (added (init_state 10 noon) (file_callback plain_build warn_event (init_state 10 noon)))
       = ''WARN  main.c:3: started'' @ [CHR 0x0A]
   \<and> last (added (init_state 10 noon) (file_callback plain_build warn_event (init_state 10 noon)))
       = Fflush 7
   \<and> written 7 (added (init_state 10 noon) (stdout_callback plain_build warn_event (init_state 10 noon)))
       = ''WARN  main.c:3: started'' @ [CHR 0x0A]
   \<and> \<not> dead (file_callback plain_build warn_event (init_state 10 noon))"
proof -
  have fmt: "LOGC__TIME_FORMAT plain_build \<noteq> 2"
    by (simp add: plain_build_def default_build_def)
  note t = formatter_lines [OF fmt, of warn_event "init_state 10 noon" LOG_WARN]
  have st: "stream warn_event = 7"
    by (simp add: warn_event_def)
  show ?thesis
    using t fmt
    by (simp add: st)
      (simp add: warn_event_def plain_build_def default_build_def time_text_def
        log_level_string_def level_strings_def left_justify_def printf_d_def int32_def
        show_int_def show_nat.simps init_state_def)
qed

subsection \<open>C9: the populated slots form a prefix\<close>

text \<open>
  C9. From the empty registry (of any capacity), every sequence of the public operations
  (\<^verbatim>\<open>log_set_level\<close>, \<^verbatim>\<open>log_set_quiet\<close>, \<^verbatim>\<open>log_set_lock\<close>, \<^verbatim>\<open>log_add_callback\<close>, \<^verbatim>\<open>log_add_fp\<close>,
  \<^verbatim>\<open>log_log\<close>) leads to a registry whose populated slots form a prefix: if slot \<open>i\<close> is empty,
  every slot \<open>j > i\<close> is empty. Insertion writes the first empty slot only and nothing
  clears a slot.
\<close>

theorem populated_slots_form_prefix:
  "prefix_inv (callbacks (L (run b ops (init_state n c))))
   \<and> (\<forall>i j. i < j \<and> j < LOGC__MAX_CALLBACKS (run b ops (init_state n c))
          \<and> cb_fn (callbacks (L (run b ops (init_state n c))) ! i) = None
        \<longrightarrow> cb_fn (callbacks (L (run b ops (init_state n c))) ! j) = None)"
proof -
  have inv: "prefix_inv (callbacks (L (run b ops (init_state n c))))"
    by (rule prefix_inv_run) (rule prefix_inv_init)
  then show ?thesis
    by (auto simp: LOGC__MAX_CALLBACKS_def intro: prefix_inv_nth)
qed

lemma example_run_registry:
  "callbacks (L (run default_build example_ops (init_state 4 noon))) =
     [\<lparr>cb_fn = Some File_callback, cb_stream = 7, cb_level = LOG_ERROR\<rparr>,
      \<lparr>cb_fn = Some (User_fn 1), cb_stream = 8, cb_level = LOG_INFO\<rparr>,
      empty_slot, empty_slot]"
proof -
  have rep: "replicate 4 empty_slot = [empty_slot, empty_slot, empty_slot, empty_slot]"
    by (simp add: numeral_eq_Suc)
  have e: "cb_fn empty_slot = None"
    by (simp add: empty_slot_def)
  have keep: "callbacks (L (apply_op b (Log lv f ln fm args) w)) = callbacks (L w)"
    "callbacks (L (apply_op b (SetLevel lv) w)) = callbacks (L w)" for b lv f ln fm args w
    by (simp_all add: apply_op_def L_log_log log_set_level_def)
  show ?thesis
    by (simp add: example_ops_def keep)
      (simp add: apply_op_def init_state_def L_init_def log_add_fp_def log_add_callback_def
        add_callback_from.simps LOGC__MAX_CALLBACKS_def log_set_quiet_def rep e)
qed

theorem populated_slots_form_prefix_witness:
  "(2::nat) < 3
   \<and> 3 < LOGC__MAX_CALLBACKS (run default_build example_ops (init_state 4 noon))
   \<and> cb_fn (callbacks (L (run default_build example_ops (init_state 4 noon))) ! 1) \<noteq> None
   \<and> cb_fn (callbacks (L (run default_build example_ops (init_state 4 noon))) ! 2) = None
   \<and> cb_fn (callbacks (L (run default_build example_ops (init_state 4 noon))) ! 3) = None"
  using populated_slots_form_prefix [of default_build example_ops 4 noon]
  by (simp add: example_run_registry LOGC__MAX_CALLBACKS_def empty_slot_def)

subsection \<open>C10: logging leaves the logger unchanged\<close>

text \<open>
  C10. A call of \<^verbatim>\<open>log_log\<close> changes nothing of the logger \<^verbatim>\<open>L\<close>: after the call the threshold
  of the standard stream, the quiet flag, the lock hook and its context, and every slot of
  the registry are what they were before, whatever the starting state and the arguments.
  (Functions supplied by the caller are recorded as calls; what they do themselves is
  outside the program.)
\<close>

theorem log_log_keeps_logger:
  "L (log_log b lv f ln fm args w) = L w
   \<and> std_level (L (log_log b lv f ln fm args w)) = std_level (L w)
   \<and> std_quiet (L (log_log b lv f ln fm args w)) = std_quiet (L w)
   \<and> lock_fn (L (log_log b lv f ln fm args w)) = lock_fn (L w)
   \<and> lock_ptr (L (log_log b lv f ln fm args w)) = lock_ptr (L w)
   \<and> callbacks (L (log_log b lv f ln fm args w)) = callbacks (L w)"
  by (simp add: L_log_log)

end
